theory Spec2Isabelle
  imports Main "HOL-Library.Word"
begin

unbundle bit_operations_syntax

section \<open>Machine integers and bytes\<close>

type_synonym byte = "8 word"
type_synonym u32 = "32 word"
type_synonym i64 = "64 word"

text \<open>
  \<^verbatim>\<open>const blockSize = 16 * 1024\<close> and the message ids of the \<^verbatim>\<open>iota\<close> block.
\<close>

definition blockSize :: u32 where
  "blockSize = 16 * 1024"

definition msgChoke :: byte where "msgChoke = 0"
definition msgUnchoke :: byte where "msgUnchoke = 1"
definition msgInterested :: byte where "msgInterested = 2"
definition msgNotInterested :: byte where "msgNotInterested = 3"
definition msgHave :: byte where "msgHave = 4"
definition msgBitfield :: byte where "msgBitfield = 5"
definition msgRequest :: byte where "msgRequest = 6"
definition msgPiece :: byte where "msgPiece = 7"
definition msgCancel :: byte where "msgCancel = 8"
definition msgPort :: byte where "msgPort = 9"

lemmas msg_defs = msgChoke_def msgUnchoke_def msgInterested_def msgNotInterested_def
  msgHave_def msgBitfield_def msgRequest_def msgPiece_def msgCancel_def msgPort_def

text \<open>Big-endian encoding and decoding of a 32-bit value, as \<^verbatim>\<open>encoding/binary\<close> does.\<close>

definition be32 :: "byte list \<Rightarrow> u32" where
  "be32 bs = of_nat (foldl (\<lambda>a b. a * 256 + unat b) 0 bs)"

definition enc32 :: "u32 \<Rightarrow> byte list" where
  "enc32 w = [ucast (drop_bit 24 w), ucast (drop_bit 16 w), ucast (drop_bit 8 w), ucast w]"

section \<open>The bit field\<close>

text \<open>
  Modelled from the spec: the bitfield package is not among the sources. The spec gives
  a packed bit vector with \<^verbatim>\<open>Set(i)\<close>, \<^verbatim>\<open>Test(i)\<close>, \<^verbatim>\<open>Count()\<close>, \<^verbatim>\<open>Len()\<close> and raw byte
  access, whose wire form has \<open>ceil(L/8)\<close> bytes for \<open>L\<close> bits and whose bit 0 is the
  top bit of byte 0 (scenario 1: one piece, bitfield \<^verbatim>\<open>[0x80]\<close>). The callers index it
  with \<^verbatim>\<open>uint32\<close>. \<open>Count\<close> is the number of set bits of the bytes. The spec does not
  say what \<open>Set\<close> and \<open>Test\<close> do at an index beyond the bytes; here \<open>Set\<close> leaves the
  bytes as they are and \<open>Test\<close> is false, and every caller checks the index first.
\<close>

record bitField =
  bf_bytes :: "byte list"
  bf_len :: u32

definition newBitField :: "u32 \<Rightarrow> bitField" where
  "newBitField n = \<lparr>bf_bytes = replicate ((unat n + 7) div 8) 0, bf_len = n\<rparr>"

definition Bytes :: "bitField \<Rightarrow> byte list" where
  "Bytes bf = bf_bytes bf"

definition Len :: "bitField \<Rightarrow> u32" where
  "Len bf = bf_len bf"

definition Test :: "bitField \<Rightarrow> u32 \<Rightarrow> bool" where
  "Test bf i =
     (unat i div 8 < length (bf_bytes bf) \<and>
      bit (bf_bytes bf ! (unat i div 8)) (7 - unat i mod 8))"

definition Set_bit :: "bitField \<Rightarrow> u32 \<Rightarrow> bitField" where
  "Set_bit bf i =
     (if unat i div 8 < length (bf_bytes bf)
      then bf\<lparr>bf_bytes := (bf_bytes bf)
             [unat i div 8 := (bf_bytes bf ! (unat i div 8)) OR push_bit (7 - unat i mod 8) 1]\<rparr>
      else bf)"

definition popcount :: "byte \<Rightarrow> nat" where
  "popcount w = length (filter (bit w) [0..<8])"

definition set_bits :: "bitField \<Rightarrow> nat" where
  "set_bits bf = sum_list (map popcount (bf_bytes bf))"

definition Count :: "bitField \<Rightarrow> u32" where
  "Count bf = of_nat (set_bits bf)"

section \<open>The transfer\<close>

text \<open>
  Modelled from the spec: the block, piece and torrent declarations are not among the
  sources. The fields are those of the spec's data model that the code reads, with the
  widths its expressions force: \<^verbatim>\<open>b.index*blockSize\<close>
  and \<^verbatim>\<open>b.length\<close> are arguments of \<^verbatim>\<open>newPeerRequestMessage(index, begin, length uint32)\<close>,
  \<^verbatim>\<open>length != block.length\<close> compares with a \<^verbatim>\<open>uint32\<close>. \<^verbatim>\<open>Count() * PieceLength\<close> is one
  Go multiplication, so both operands have one type; the bit field is indexed and sized
  with \<^verbatim>\<open>uint32\<close> throughout, so that type is taken to be \<^verbatim>\<open>uint32\<close>.
\<close>

record block =
  b_index :: u32
  b_length :: u32

record piece =
  p_index :: u32
  p_length :: u32
  p_sha1 :: "byte list"
  p_blocks :: "block list"
  p_bitField :: bitField
  p_downloaded :: bool

record transfer =
  pieces :: "piece list"
  t_bitField :: bitField
  PieceLength :: u32
  TotalLength :: i64

text \<open>
  \<^verbatim>\<open>func (t *transfer) Downloaded() int64 { return int64(t.bitField.Count() * t.torrent.Info.PieceLength) }\<close>
  The product is taken at 32 bits and then widened.
\<close>

definition Downloaded :: "transfer \<Rightarrow> i64" where
  "Downloaded t = ucast (Count (t_bitField t) * PieceLength t)"

definition Left :: "transfer \<Rightarrow> i64" where
  "Left t = TotalLength t - Downloaded t"

section \<open>The connection: reading and writing\<close>

text \<open>
  What the remote sends is a list of segments: each is the bytes one \<^verbatim>\<open>Read\<close> on the
  connection can return at that moment. \<^verbatim>\<open>net.Conn.Read(b)\<close> returns at once with
  nothing for an empty \<^verbatim>\<open>b\<close>; otherwise it returns what is available, at most
  \<^verbatim>\<open>len(b)\<close> bytes, without waiting for more, and fails when nothing will arrive any
  more (end of stream, or the read deadline of 3 minutes). \<open>None\<close> is that failure.
\<close>

type_synonym conn_in = "byte list list"

fun conn_Read :: "nat \<Rightarrow> conn_in \<Rightarrow> (byte list \<times> conn_in) option" where
  "conn_Read n [] = (if n = 0 then Some ([], []) else None)"
| "conn_Read n (c # cs) =
     (if n = 0 then Some ([], c # cs)
      else if c = [] then conn_Read n cs
      else Some (take n c, drop n c # cs))"

text \<open>
  \<^verbatim>\<open>binary.Read\<close> fills its buffer with \<^verbatim>\<open>io.ReadFull\<close>: it reads again until it has
  all \<open>n\<close> bytes and fails if the stream ends before.
\<close>

fun ReadFull :: "nat \<Rightarrow> conn_in \<Rightarrow> (byte list \<times> conn_in) option" where
  "ReadFull n [] = (if n = 0 then Some ([], []) else None)"
| "ReadFull n (c # cs) =
     (if n \<le> length c then Some (take n c, drop n c # cs)
      else (case ReadFull (n - length c) cs of
              None \<Rightarrow> None
            | Some (bs, cs') \<Rightarrow> Some (c @ bs, cs')))"

definition read_u32 :: "conn_in \<Rightarrow> (u32 \<times> conn_in) option" where
  "read_u32 cs = (case ReadFull 4 cs of None \<Rightarrow> None | Some (bs, cs') \<Rightarrow> Some (be32 bs, cs'))"

definition read_u8 :: "conn_in \<Rightarrow> (byte \<times> conn_in) option" where
  "read_u8 cs = (case ReadFull 1 cs of None \<Rightarrow> None | Some (bs, cs') \<Rightarrow> Some (hd bs, cs'))"

text \<open>
  \<^verbatim>\<open>io.CopyN(ioutil.Discard, p.conn, n)\<close> with its result ignored: up to \<open>n\<close> bytes are
  taken off the stream, fewer if it ends before.
\<close>

fun discard :: "nat \<Rightarrow> conn_in \<Rightarrow> conn_in" where
  "discard n [] = []"
| "discard n (c # cs) = (if n \<le> length c then drop n c # cs else discard (n - length c) cs)"

text \<open>
  \<^verbatim>\<open>io.LimitReader(p.conn, n).Read(data)\<close> with \<^verbatim>\<open>len(data) = n\<close>: the limited reader is
  at its end when \<open>n \<le> 0\<close>, otherwise it is one \<^verbatim>\<open>Read\<close> of the connection. The
  bytes read are the front of \<^verbatim>\<open>data\<close>; the rest of \<^verbatim>\<open>data\<close> stays as \<^verbatim>\<open>make\<close> left it.
\<close>

definition limit_Read :: "nat \<Rightarrow> conn_in \<Rightarrow> (byte list \<times> conn_in) option" where
  "limit_Read n cs =
     (if n = 0 then None
      else (case conn_Read n cs of
              None \<Rightarrow> None
            | Some (bs, cs') \<Rightarrow> Some (bs @ replicate (n - length bs) 0, cs')))"

text \<open>Errors: a failed read or write of the connection, an error with a message, a Go panic.\<close>

datatype error = IOError | Err string | Panic

fun message :: "error \<Rightarrow> string" where
  "message IOError = ''i/o error''"
| "message (Err m) = m"
| "message Panic = ''panic''"

section \<open>The peer connection\<close>

text \<open>
  \<^verbatim>\<open>type peerConn struct\<close>. A channel that is only ever closed and replaced is its
  number: \<open>unchokeC\<close> is the number of the current channel, and the channels closed so
  far are the smaller numbers. \<open>onceInterested\<close> is whether the \<^verbatim>\<open>sync.Once\<close> has run.
  \<open>written\<close> holds the frames written to the connection, \<open>closed\<close> whether
  \<^verbatim>\<open>p.conn.Close()\<close> was called.
\<close>

record peerConn =
  unchokeC :: nat
  onceInterested :: bool
  amChoking :: bool
  amInterested :: bool
  peerChoking :: bool
  peerInterested :: bool
  written :: "byte list list"
  closed :: bool

definition newPeerConn :: peerConn where
  "newPeerConn = \<lparr>unchokeC = 0, onceInterested = False, amChoking = True,
     amInterested = False, peerChoking = True, peerInterested = False,
     written = [], closed = False\<rparr>"

text \<open>
  What the message loop sends on channels: \<^verbatim>\<open>t.haveC <- peerHave{p, piece}\<close> is
  \<open>Have\<close> with the piece's position in \<^verbatim>\<open>t.pieces\<close>;
  \<^verbatim>\<open>piece.blockC <- peerBlock{p, block, data}\<close> is \<open>Block\<close> with the piece's position
  (which names the channel), the block's position in \<^verbatim>\<open>piece.blocks\<close> and the data.
  The events are recorded in the order they are sent; a receiver is taken to be there.
\<close>

datatype event = Have nat | Block nat nat "byte list"

text \<open>
  The state of \<^verbatim>\<open>run\<close>: the connection, the locals \<^verbatim>\<open>first\<close> and \<^verbatim>\<open>bitField\<close>, and the
  events sent so far. A write succeeds or fails as the environment decides (\<open>ok\<close>).
\<close>

record loop_state =
  pc :: peerConn
  first :: bool
  view :: bitField
  sent :: "event list"

definition sendBitField :: "peerConn \<Rightarrow> bitField \<Rightarrow> bool \<Rightarrow> error option \<times> peerConn" where
  "sendBitField p b ok =
     (if ok
      then (None, p\<lparr>written := written p @
              [enc32 (of_nat (1 + length (Bytes b))) @ [msgBitfield] @ Bytes b]\<rparr>)
      else (Some IOError, p))"

definition sendMessage :: "peerConn \<Rightarrow> byte \<Rightarrow> bool \<Rightarrow> error option \<times> peerConn" where
  "sendMessage p msgType ok =
     (if ok then (None, p\<lparr>written := written p @ [enc32 1 @ [msgType]]\<rparr>)
      else (Some IOError, p))"

text \<open>\<^verbatim>\<open>sendRequest(newPeerRequestMessage(index, begin, length))\<close>\<close>

definition sendRequest :: "peerConn \<Rightarrow> u32 \<Rightarrow> u32 \<Rightarrow> u32 \<Rightarrow> bool \<Rightarrow> error option \<times> peerConn" where
  "sendRequest p index begin len ok =
     (if ok
      then (None, p\<lparr>written := written p @
              [enc32 13 @ [msgRequest] @ enc32 index @ enc32 begin @ enc32 len]\<rparr>)
      else (Some IOError, p))"

subsection \<open>One turn of the message loop\<close>

text \<open>
  One turn of the \<^verbatim>\<open>for\<close> loop of \<^verbatim>\<open>run\<close> either returns from \<^verbatim>\<open>run\<close> (\<open>Stop\<close>, with
  what was logged and the state reached) or goes round again (\<open>Continue\<close>, with the
  state and the rest of the stream).
\<close>

datatype step_result = Stop error loop_state | Continue loop_state conn_in

text \<open>
  The loop of the bitfield case,
  \<^verbatim>\<open>for i := uint32(0); i < bitField.Len(); i++ { if bitField.Test(i) { t.haveC <- peerHave{p, t.pieces[i]} } }\<close>,
  over the indices still to visit. \<^verbatim>\<open>t.pieces[i]\<close> panics out of range.
\<close>

fun send_haves :: "transfer \<Rightarrow> bitField \<Rightarrow> nat list \<Rightarrow> loop_state \<Rightarrow> error option \<times> loop_state" where
  "send_haves t bf [] s = (None, s)"
| "send_haves t bf (i # is) s =
     (if Test bf (of_nat i)
      then (if i < length (pieces t)
            then send_haves t bf is (s\<lparr>sent := sent s @ [Have i]\<rparr>)
            else (Some Panic, s))
      else send_haves t bf is s)"

text \<open>The body of the \<^verbatim>\<open>switch msgType\<close>; \<open>len\<close> is \<^verbatim>\<open>length\<close> after \<^verbatim>\<open>length--\<close>.\<close>

definition handle :: "transfer \<Rightarrow> loop_state \<Rightarrow> byte \<Rightarrow> u32 \<Rightarrow> conn_in \<Rightarrow> step_result" where
  "handle t s msgType len cs =
    (if msgType = msgChoke then Continue (s\<lparr>pc := (pc s)\<lparr>peerChoking := True\<rparr>\<rparr>) cs
     else if msgType = msgUnchoke then
       Continue (s\<lparr>pc := (pc s)\<lparr>peerChoking := False, unchokeC := Suc (unchokeC (pc s))\<rparr>\<rparr>) cs
     else if msgType = msgInterested then Continue (s\<lparr>pc := (pc s)\<lparr>peerInterested := True\<rparr>\<rparr>) cs
     else if msgType = msgNotInterested then
       Continue (s\<lparr>pc := (pc s)\<lparr>peerInterested := False\<rparr>\<rparr>) cs
     else if msgType = msgHave then
       (case read_u32 cs of
          None \<Rightarrow> Stop IOError s
        | Some (i, cs1) \<Rightarrow>
            if i \<ge> of_nat (length (pieces t)) then Stop (Err ''unexpected piece index'') s
            else Continue (s\<lparr>view := Set_bit (view s) i, sent := sent s @ [Have (unat i)]\<rparr>) cs1)
     else if msgType = msgBitfield then
       (if \<not> first s then Stop (Err ''bitfield can only be sent after handshake'') s
        else if uint len \<noteq> int (length (Bytes (view s))) then Stop (Err ''invalid bitfield length'') s
        else (case conn_Read (length (Bytes (view s))) cs of
                None \<Rightarrow> Stop IOError s
              | Some (bs, cs1) \<Rightarrow>
                  let bf = (view s)\<lparr>bf_bytes := bs @ drop (length bs) (bf_bytes (view s))\<rparr>
                  in (case send_haves t bf [0..<unat (Len bf)] (s\<lparr>view := bf\<rparr>) of
                        (Some e, s1) \<Rightarrow> Stop e s1
                      | (None, s1) \<Rightarrow> Continue s1 cs1)))
     else if msgType = msgRequest then Continue s cs
     else if msgType = msgPiece then
       (case read_u32 cs of
          None \<Rightarrow> Stop IOError s
        | Some (index, cs1) \<Rightarrow>
            if index \<ge> of_nat (length (pieces t)) then Stop (Err ''unexpected piece index'') s
            else
              let piece = pieces t ! unat index in
              (case read_u32 cs1 of
                 None \<Rightarrow> Stop IOError s
               | Some (begin, cs2) \<Rightarrow>
                   if begin mod blockSize \<noteq> 0 then Stop (Err ''unexpected piece offset'') s
                   else
                     let blockIndex = begin div blockSize in
                     if blockIndex \<ge> of_nat (length (p_blocks piece))
                     then Stop (Err ''unexpected piece offset'') s
                     else
                       let block = p_blocks piece ! unat blockIndex;
                           len' = len - 8
                       in if len' \<noteq> b_length block then Stop (Err ''unexpected block size'') s
                          else (case limit_Read (unat len') cs2 of
                                  None \<Rightarrow> Stop IOError s
                                | Some (data, cs3) \<Rightarrow>
                                    Continue (s\<lparr>sent := sent s @
                                       [Block (unat index) (unat blockIndex) data]\<rparr>) cs3)))
     else if msgType = msgCancel then Continue s cs
     else if msgType = msgPort then Continue s cs
     else Continue s (discard (unat len) cs))"

text \<open>
  The loop body: the length prefix, the keep-alive \<^verbatim>\<open>continue\<close>, the message id, the
  switch, and \<^verbatim>\<open>first = false\<close> for every message that reaches the end of the switch.
\<close>

definition step :: "transfer \<Rightarrow> loop_state \<Rightarrow> conn_in \<Rightarrow> step_result" where
  "step t s cs =
     (case read_u32 cs of
        None \<Rightarrow> Stop IOError s
      | Some (len, cs1) \<Rightarrow>
          if len = 0 then Continue s cs1
          else (case read_u8 cs1 of
                  None \<Rightarrow> Stop IOError s
                | Some (msgType, cs2) \<Rightarrow>
                    (case handle t s msgType (len - 1) cs2 of
                       Stop e s1 \<Rightarrow> Stop e s1
                     | Continue s1 cs3 \<Rightarrow> Continue (s1\<lparr>first := False\<rparr>) cs3)))"

subsection \<open>The message loop\<close>

text \<open>
  The \<^verbatim>\<open>for\<close> loop of \<^verbatim>\<open>run\<close>. It leaves only by \<^verbatim>\<open>return\<close>, which closes
  \<^verbatim>\<open>p.disconnected\<close>; the result is what was logged last and the state reached. Every
  turn that goes round again has taken at least the four bytes of a length prefix, so on
  a finite stream the loop ends.
\<close>

function run_loop :: "transfer \<Rightarrow> loop_state \<Rightarrow> conn_in \<Rightarrow> error \<times> loop_state" where
  "run_loop t s cs =
     (case step t s cs of
        Stop e s' \<Rightarrow> (e, s')
      | Continue s' cs' \<Rightarrow> run_loop t s' cs')"
  by pat_completeness auto
termination
proof (relation "measure (\<lambda>(t, s, cs). length (concat cs))")
  show "wf (measure (\<lambda>(t, s, cs). length (concat cs)))"
    by simp
next
  fix t :: transfer and s s' :: loop_state and cs cs' :: conn_in
  assume st: "step t s cs = Continue s' cs'"
  have full: "ReadFull n ds = Some (bs, ds') \<Longrightarrow> length (concat ds) = n + length (concat ds')"
    for n ds bs ds'
    by (induction n ds arbitrary: bs rule: ReadFull.induct)
      (fastforce split: if_splits option.splits)+
  have one: "conn_Read n ds = Some (bs, ds') \<Longrightarrow> length (concat ds') \<le> length (concat ds)"
    for n ds bs ds'
    by (induction n ds rule: conn_Read.induct) (auto split: if_splits)
  have disc: "length (concat (discard n ds)) \<le> length (concat ds)" for n ds
    by (induction n ds rule: discard.induct) auto
  have u32: "read_u32 ds = Some (w, ds') \<Longrightarrow> length (concat ds) = 4 + length (concat ds')"
    for ds w ds'
    by (auto simp: read_u32_def split: option.splits dest: full)
  have u8: "read_u8 ds = Some (b, ds') \<Longrightarrow> length (concat ds') \<le> length (concat ds)"
    for ds b ds'
    by (auto simp: read_u8_def split: option.splits dest: full)
  have lim: "limit_Read n ds = Some (bs, ds') \<Longrightarrow> length (concat ds') \<le> length (concat ds)"
    for n ds bs ds'
    by (auto simp: limit_Read_def split: option.splits if_splits dest: one)
  have hd: "handle t s m len ds = Continue s1 ds' \<Longrightarrow> length (concat ds') \<le> length (concat ds)"
    for m len ds s1 ds'
    unfolding handle_def using disc [of "unat len" ds]
    by (auto simp: Let_def split: if_splits option.splits prod.splits
        dest!: u32 lim one)
  from st have "length (concat cs') < length (concat cs)"
    unfolding step_def
    by (auto split: option.splits if_splits step_result.splits dest!: u32 u8 hd)
  then show "((t, s', cs'), (t, s, cs)) \<in> measure (\<lambda>(t, s, cs). length (concat cs))"
    by simp
qed

text \<open>
  \<^verbatim>\<open>run\<close>: our bitfield is written first; the loop starts with \<^verbatim>\<open>first := true\<close> and
  \<^verbatim>\<open>bitField := newBitField(nil, t.bitField.Len())\<close>.
\<close>

definition init_loop :: "transfer \<Rightarrow> peerConn \<Rightarrow> loop_state" where
  "init_loop t p = \<lparr>pc = p, first = True, view = newBitField (Len (t_bitField t)), sent = []\<rparr>"

definition run :: "transfer \<Rightarrow> peerConn \<Rightarrow> bool \<Rightarrow> conn_in \<Rightarrow> error \<times> loop_state" where
  "run t p ok cs =
     (case sendBitField p (t_bitField t) ok of
        (Some e, p') \<Rightarrow> (e, init_loop t p')
      | (None, p') \<Rightarrow> run_loop t (init_loop t p') cs)"

text \<open>
  The states the loop passes through: \<open>reaches t s cs s' cs'\<close> when some number of
  turns from \<open>s\<close> on the stream \<open>cs\<close> leads to \<open>s'\<close> with \<open>cs'\<close> left.
\<close>

inductive reaches :: "transfer \<Rightarrow> loop_state \<Rightarrow> conn_in \<Rightarrow> loop_state \<Rightarrow> conn_in \<Rightarrow> bool"
  for t :: transfer where
  reaches_refl: "reaches t s cs s cs"
| reaches_step: "step t s cs = Continue s1 cs1 \<Longrightarrow> reaches t s1 cs1 s' cs' \<Longrightarrow> reaches t s cs s' cs'"

section \<open>Downloading a piece\<close>

text \<open>
  \<^verbatim>\<open>beInterested\<close>, under the mutex. \<^verbatim>\<open>sync.Once.Do\<close> runs its function if it has not run
  one before, and counts as done however the function ends.
\<close>

definition beInterested :: "peerConn \<Rightarrow> bool \<Rightarrow> nat \<times> error option \<times> peerConn" where
  "beInterested p ok =
     (if \<not> peerChoking p then (unchokeC p, None, p)
      else if onceInterested p then (unchokeC p, None, p)
      else (case sendMessage p msgInterested ok of
              (err, p') \<Rightarrow> (unchokeC p, err, p'\<lparr>onceInterested := True\<rparr>)))"

text \<open>
  What the environment does during \<^verbatim>\<open>downloadPiece\<close>: whether a write succeeds, which
  branch of a \<^verbatim>\<open>select\<close> is taken (the channel or \<^verbatim>\<open>time.After(time.Minute)\<close>), the data
  of the \<^verbatim>\<open>peerBlock\<close> received, whether \<^verbatim>\<open>b.files.Write\<close> succeeds.
\<close>

datatype block_wait = Timeout | Received "byte list"

record block_env =
  req_ok :: bool
  wait :: block_wait
  file_ok :: bool

record dl_env =
  interested_ok :: bool
  unchoked :: bool
  blocks_env :: "nat \<Rightarrow> block_env"

record dl_state =
  dl_conn :: peerConn
  dl_piece :: piece
  pieceData :: "byte list"

text \<open>
  \<^verbatim>\<open>copy(pieceData[off:], data)\<close> for \<open>off \<le> len(pieceData)\<close>: as many bytes as fit.
  The slice expression panics for a larger \<open>off\<close>.
\<close>

definition copy_at :: "byte list \<Rightarrow> nat \<Rightarrow> byte list \<Rightarrow> byte list" where
  "copy_at dst off src = take off dst @ take (length dst - off) src @ drop (off + length src) dst"

text \<open>\<^verbatim>\<open>for i, b := range piece.blocks { ... }\<close> over the blocks still to request.\<close>

fun request_blocks :: "(nat \<times> block) list \<Rightarrow> (nat \<Rightarrow> block_env) \<Rightarrow> dl_state \<Rightarrow> error option \<times> dl_state" where
  "request_blocks [] env d = (None, d)"
| "request_blocks ((i, b) # bs) env d =
     (case sendRequest (dl_conn d) (p_index (dl_piece d)) (b_index b * blockSize) (b_length b)
             (req_ok (env i)) of
        (Some e, p') \<Rightarrow> (Some e, d\<lparr>dl_conn := p'\<rparr>)
      | (None, p') \<Rightarrow>
          let d1 = d\<lparr>dl_conn := p'\<rparr> in
          (case wait (env i) of
             Timeout \<Rightarrow> request_blocks bs env d1
           | Received data \<Rightarrow>
               if (of_nat (length data) :: u32) \<noteq> b_length b
               then (Some (Err ''unexpected block length''), d1)
               else if length (pieceData d1) < unat (b_index b * blockSize)
               then (Some Panic, d1)
               else
                 let d2 = d1\<lparr>pieceData :=
                            copy_at (pieceData d1) (unat (b_index b * blockSize)) data\<rparr>
                 in if \<not> file_ok (env i) then (Some IOError, d2)
                    else request_blocks bs env
                           (d2\<lparr>dl_piece := (dl_piece d2)
                                 \<lparr>p_bitField := Set_bit (p_bitField (dl_piece d2)) (of_nat i)\<rparr>\<rparr>)))"

text \<open>
  \<^verbatim>\<open>downloadPiece\<close>. The hash is a parameter: \<open>sha1 bs\<close> is \<^verbatim>\<open>hash.Sum(nil)\<close> after
  \<^verbatim>\<open>hash.Write(bs)\<close>. The result is the error returned (\<open>None\<close> for \<^verbatim>\<open>nil\<close>), the
  connection and the piece.
\<close>

definition downloadPiece ::
  "(byte list \<Rightarrow> byte list) \<Rightarrow> peerConn \<Rightarrow> piece \<Rightarrow> dl_env \<Rightarrow> error option \<times> peerConn \<times> piece" where
  "downloadPiece sha1 p piece env =
     (case beInterested p (interested_ok env) of
        (c, Some e, p1) \<Rightarrow> (Some e, p1, piece)
      | (c, None, p1) \<Rightarrow>
          if unchoked env then
            (case request_blocks (zip [0..<length (p_blocks piece)] (p_blocks piece)) (blocks_env env)
                    \<lparr>dl_conn = p1, dl_piece = piece,
                     pieceData = replicate (unat (p_length piece)) 0\<rparr> of
               (Some e, d) \<Rightarrow> (Some e, dl_conn d, dl_piece d)
             | (None, d) \<Rightarrow>
                 if sha1 (pieceData d) \<noteq> p_sha1 (dl_piece d)
                 then (Some (Err ''received corrupt piece''), dl_conn d, dl_piece d)
                 else (None, dl_conn d, (dl_piece d)\<lparr>p_downloaded := True\<rparr>))
          else (Some (Err ''Peer did not unchoke''), p1\<lparr>closed := True\<rparr>, piece))"

text \<open>
  The piece buffer after the block loop, when the loop is not left early: what
  \<^verbatim>\<open>downloadPiece\<close> hashes.
\<close>

definition assembled :: "peerConn \<Rightarrow> piece \<Rightarrow> dl_env \<Rightarrow> byte list option" where
  "assembled p piece env =
     (case beInterested p (interested_ok env) of
        (c, Some e, p1) \<Rightarrow> None
      | (c, None, p1) \<Rightarrow>
          if unchoked env then
            (case request_blocks (zip [0..<length (p_blocks piece)] (p_blocks piece)) (blocks_env env)
                    \<lparr>dl_conn = p1, dl_piece = piece,
                     pieceData = replicate (unat (p_length piece)) 0\<rparr> of
               (Some e, d) \<Rightarrow> None
             | (None, d) \<Rightarrow> Some (pieceData d))
          else None)"

subsection \<open>A connection's lifetime\<close>

text \<open>
  What happens to one connection, in any order: a turn of its message loop on what the
  remote has sent, a call of \<^verbatim>\<open>beInterested\<close>, a call of \<^verbatim>\<open>downloadPiece\<close> (the only
  caller of \<^verbatim>\<open>beInterested\<close> and of \<^verbatim>\<open>sendRequest\<close>). The mutex and the dispatcher make
  the calls follow one another. A turn after the loop has returned changes nothing on
  the connection.
\<close>

datatype action =
  LoopTurn
| CallBeInterested bool
| CallDownloadPiece "byte list \<Rightarrow> byte list" piece dl_env

fun act :: "transfer \<Rightarrow> loop_state \<times> conn_in \<Rightarrow> action \<Rightarrow> loop_state \<times> conn_in" where
  "act t (s, cs) LoopTurn =
     (case step t s cs of Stop e s' \<Rightarrow> (s', cs) | Continue s' cs' \<Rightarrow> (s', cs'))"
| "act t (s, cs) (CallBeInterested ok) =
     (case beInterested (pc s) ok of (c, err, p') \<Rightarrow> (s\<lparr>pc := p'\<rparr>, cs))"
| "act t (s, cs) (CallDownloadPiece sha1 piece env) =
     (case downloadPiece sha1 (pc s) piece env of (err, p', piece') \<Rightarrow> (s\<lparr>pc := p'\<rparr>, cs))"

text \<open>
  The connection from \<^verbatim>\<open>newPeerConn\<close> on: \<^verbatim>\<open>run\<close> writes our bitfield (when the write
  succeeds), then the actions follow.
\<close>

definition lifetime :: "transfer \<Rightarrow> bool \<Rightarrow> conn_in \<Rightarrow> action list \<Rightarrow> loop_state \<times> conn_in" where
  "lifetime t ok cs acts =
     foldl (act t) (init_loop t (snd (sendBitField newPeerConn (t_bitField t) ok)), cs) acts"

text \<open>The INTERESTED frames among the frames written: length prefix 1, id 2.\<close>

definition interested_sent :: "peerConn \<Rightarrow> nat" where
  "interested_sent p = length (filter (\<lambda>f. f = enc32 1 @ [msgInterested]) (written p))"

section \<open>The peer address queue of the supervisor\<close>

text \<open>
  Modelled from the spec: \<^verbatim>\<open>tracker.NumWant\<close> is declared in the tracker package, which
  is not among the sources; the spec gives capacity = NumWant = 50.
\<close>

definition NumWant :: nat where
  "NumWant = 50"

text \<open>
  A buffered channel is its queue of waiting values, oldest first, with a capacity.
  A send is ready when the queue is shorter than the capacity. The loop body of
  \<^verbatim>\<open>transfer.Run\<close> for one address is
  \<^verbatim>\<open>select { case peers <- pa: default: <-peers; peers <- pa }\<close>.
  Only this task is modelled: \<open>None\<close> is the body blocking forever on a receive from
  an empty queue or on a send to a full one.
\<close>

definition enqueue :: "nat \<Rightarrow> 'a list \<Rightarrow> 'a \<Rightarrow> 'a list option" where
  "enqueue cap q pa =
     (if length q < cap then Some (q @ [pa])
      else (case q of
              [] \<Rightarrow> None
            | x # q' \<Rightarrow> if length q' < cap then Some (q' @ [pa]) else None))"

text \<open>\<^verbatim>\<open>for _, pa := range peerAddrs { ... }\<close>\<close>

fun enqueue_all :: "nat \<Rightarrow> 'a list \<Rightarrow> 'a list \<Rightarrow> 'a list option" where
  "enqueue_all cap q [] = Some q"
| "enqueue_all cap q (pa # pas) =
     (case enqueue cap q pa of None \<Rightarrow> None | Some q' \<Rightarrow> enqueue_all cap q' pas)"

section \<open>Examples\<close>

text \<open>
  Scenario 1 of the spec: one file of 16384 bytes, one piece, one block. The digest is
  left open (\<open>d\<close>).
\<close>

definition scenario1 :: "byte list \<Rightarrow> transfer" where
  "scenario1 d =
     \<lparr>pieces = [\<lparr>p_index = 0, p_length = 16384, p_sha1 = d,
                 p_blocks = [\<lparr>b_index = 0, b_length = 16384\<rparr>],
                 p_bitField = newBitField 1, p_downloaded = False\<rparr>],
      t_bitField = newBitField 1, PieceLength = 16384, TotalLength = 16384\<rparr>"

text \<open>Nine pieces of one block each, so that the bitfield has two bytes.\<close>

definition nine_pieces :: transfer where
  "nine_pieces =
     \<lparr>pieces = map (\<lambda>i. \<lparr>p_index = of_nat i, p_length = 16384, p_sha1 = [],
                          p_blocks = [\<lparr>b_index = 0, b_length = 16384\<rparr>],
                          p_bitField = newBitField 1, p_downloaded = False\<rparr>) [0..<9],
      t_bitField = newBitField 9, PieceLength = 16384, TotalLength = 147456\<rparr>"

text \<open>
  Examples: a piece of two bytes in one block, a stand-in for the hash that returns its
  input, and an environment in which every write succeeds and the block \<^verbatim>\<open>[7, 9]\<close>
  arrives.
\<close>

definition tiny_piece :: piece where
  "tiny_piece = \<lparr>p_index = 0, p_length = 2, p_sha1 = [7, 9],
                  p_blocks = [\<lparr>b_index = 0, b_length = 2\<rparr>],
                  p_bitField = newBitField 1, p_downloaded = False\<rparr>"

definition toy_hash :: "byte list \<Rightarrow> byte list" where
  "toy_hash bs = bs"

definition block_arrives :: "nat \<Rightarrow> block_env" where
  "block_arrives i = \<lparr>req_ok = True, wait = Received [7, 9], file_ok = True\<rparr>"

definition good_env :: dl_env where
  "good_env = \<lparr>interested_ok = True, unchoked = True, blocks_env = block_arrives\<rparr>"

definition no_unchoke_env :: dl_env where
  "no_unchoke_env = \<lparr>interested_ok = True, unchoked = False, blocks_env = block_arrives\<rparr>"

text \<open>The same, but the block that arrives is \<^verbatim>\<open>[7, 8]\<close>.\<close>

definition corrupt_block_arrives :: "nat \<Rightarrow> block_env" where
  "corrupt_block_arrives i = \<lparr>req_ok = True, wait = Received [7, 8], file_ok = True\<rparr>"

definition corrupt_env :: dl_env where
  "corrupt_env = \<lparr>interested_ok = True, unchoked = True, blocks_env = corrupt_block_arrives\<rparr>"

section \<open>Invariants used in the proofs\<close>

text \<open>
  The invariant of a connection: at most one INTERESTED frame has been written, and none
  while the \<^verbatim>\<open>sync.Once\<close> has not run.
\<close>

definition once_inv :: "peerConn \<Rightarrow> bool" where
  "once_inv p \<longleftrightarrow> interested_sent p \<le> 1 \<and> (\<not> onceInterested p \<longrightarrow> interested_sent p = 0)"

fun state_of :: "step_result \<Rightarrow> loop_state" where
  "state_of (Stop e s) = s"
| "state_of (Continue s cs) = s"

text \<open>A turn of the loop leaves the frames written and the \<^verbatim>\<open>sync.Once\<close> as they are.\<close>

definition keeps_conn :: "loop_state \<Rightarrow> step_result \<Rightarrow> bool" where
  "keeps_conn s r \<longleftrightarrow>
     written (pc (state_of r)) = written (pc s)
     \<and> onceInterested (pc (state_of r)) = onceInterested (pc s)"

section \<open>Properties of the peer address queue\<close>

lemma enqueue_free: "length q < cap \<Longrightarrow> enqueue cap q pa = Some (q @ [pa])"
  by (simp add: enqueue_def)

lemma enqueue_full:
  "0 < cap \<Longrightarrow> length q = cap \<Longrightarrow> enqueue cap q pa = Some (tl q @ [pa])"
  by (cases q) (simp_all add: enqueue_def)

lemma enqueue_bounded:
  "0 < cap \<Longrightarrow> length q \<le> cap \<Longrightarrow> \<exists>q'. enqueue cap q pa = Some q' \<and> length q' \<le> cap"
  by (cases q) (auto simp: enqueue_def)

lemma enqueue_all_bounded:
  "0 < cap \<Longrightarrow> length q \<le> cap \<Longrightarrow>
   \<exists>q'. enqueue_all cap q pas = Some q' \<and> length q' \<le> cap"
proof (induction pas arbitrary: q)
  case Nil
  then show ?case by simp
next
  case (Cons pa pas)
  from enqueue_bounded [OF Cons.prems, of pa]
  obtain q1 where q1: "enqueue cap q pa = Some q1" "length q1 \<le> cap" by blast
  from Cons.IH [OF Cons.prems(1) q1(2)] q1(1) show ?case by simp
qed

text \<open>
  C7. Enqueueing one tracker-announced address on the peer-address channel of capacity
  NumWant: with free space the address is appended; on a full channel exactly the oldest
  waiting address is removed and the new one appended; and over a whole announced list
  the queue never holds more than NumWant addresses.
\<close>

theorem C7_enqueue_drop_oldest:
  assumes "length q \<le> NumWant"
  shows "(length q < NumWant \<longrightarrow> enqueue NumWant q pa = Some (q @ [pa]))
       \<and> (length q = NumWant \<longrightarrow> enqueue NumWant q pa = Some (tl q @ [pa])
            \<and> length (tl q) = NumWant - 1)
       \<and> (\<exists>q'. enqueue NumWant q pa = Some q' \<and> length q' \<le> NumWant)
       \<and> (\<exists>q'. enqueue_all NumWant q pas = Some q' \<and> length q' \<le> NumWant)"
proof -
  have pos: "0 < NumWant" by (simp add: NumWant_def)
  show ?thesis
    using assms enqueue_free [of q NumWant pa] enqueue_full [OF pos, of q pa]
      enqueue_bounded [OF pos, of q pa] enqueue_all_bounded [OF pos, of q pas]
    by auto
qed

theorem C7_enqueue_drop_oldest_witness:
  "enqueue NumWant (map int [0..<50]) 50 = Some (map int [1..<51])
   \<and> length (map int [1..<51]) \<le> NumWant"
  using C7_enqueue_drop_oldest [of "map int [0..<50]" 50 "[]"]
  by (simp add: NumWant_def upt_rec [of _ "numeral _"] upt_rec [of 0])

section \<open>Properties of the message loop\<close>

lemma run_loop_Stop: "step t s cs = Stop e s' \<Longrightarrow> run_loop t s cs = (e, s')"
  by simp

lemma run_loop_Continue:
  "step t s cs = Continue s' cs' \<Longrightarrow> run_loop t s cs = run_loop t s' cs'"
  by simp

declare run_loop.simps [simp del]

lemmas loop_eval = run_loop.simps step_def read_u32_def read_u8_def be32_def handle_def msg_defs
  limit_Read_def blockSize_def

subsection \<open>Keep-alives\<close>

lemma step_keep_alive: "read_u32 cs = Some (0, cs1) \<Longrightarrow> step t s cs = Continue s cs1"
  by (simp add: step_def)

lemma read_u32_skip_empty: "read_u32 ([] # cs) = read_u32 cs"
  by (simp add: read_u32_def split: option.splits)

lemma step_skip_empty: "step t s ([] # cs) = step t s cs"
  by (simp add: step_def read_u32_skip_empty)

lemma run_loop_skip_empty: "run_loop t s ([] # cs) = run_loop t s cs"
  by (simp add: run_loop.simps [of t s "[] # cs"] run_loop.simps [of t s cs] step_skip_empty)

lemma read_u32_keep_alive_segment: "read_u32 ([0, 0, 0, 0] # cs) = Some (0, [] # cs)"
  by (simp add: read_u32_def be32_def)

lemma run_loop_keep_alive_segment: "run_loop t s ([0, 0, 0, 0] # cs) = run_loop t s cs"
  using run_loop_Continue [OF step_keep_alive [OF read_u32_keep_alive_segment], of t s cs]
  by (simp add: run_loop_skip_empty)

lemma run_loop_keep_alives: "run_loop t s (replicate k [0, 0, 0, 0] @ cs) = run_loop t s cs"
  by (induction k) (simp_all add: run_loop_keep_alive_segment)

text \<open>
  C8. A zero-length frame leaves the whole state as it is, the first-message flag
  included, and the loop goes on with what follows; so a run whose stream starts with any
  number of keep-alives is the run on the rest, and a BITFIELD that follows them is
  still the first message.
\<close>

theorem C8_keep_alive_not_first_message:
  "(read_u32 cs = Some (0, cs1) \<longrightarrow>
      step t s cs = Continue s cs1 \<and> run_loop t s cs = run_loop t s cs1)
   \<and> run_loop t s (replicate k [0, 0, 0, 0] @ cs) = run_loop t s cs
   \<and> run t p ok (replicate k [0, 0, 0, 0] @ cs) = run t p ok cs"
  using step_keep_alive [of cs cs1 t s] run_loop_Continue [of t s cs s cs1]
  by (simp add: run_def run_loop_keep_alives split: prod.splits option.splits)

theorem C8_keep_alive_not_first_message_witness:
  "read_u32 [[0, 0, 0, 0], [0, 0, 0, 2, 5, 128]] = Some (0, [[], [0, 0, 0, 2, 5, 128]])
   \<and> run_loop (scenario1 []) (init_loop (scenario1 []) newPeerConn)
        [[0, 0, 0, 0], [0, 0, 0, 2, 5, 128]]
     = (IOError, \<lparr>pc = newPeerConn, first = False,
                  view = \<lparr>bf_bytes = [128], bf_len = 1\<rparr>, sent = [Have 0]\<rparr>)"
proof -
  have r: "read_u32 [[0, 0, 0, 0], [0, 0, 0, 2, 5, 128]] = Some (0, [[], [0, 0, 0, 2, 5, 128]])"
    by (simp add: read_u32_def be32_def)
  have "run_loop (scenario1 []) (init_loop (scenario1 []) newPeerConn) [[], [0, 0, 0, 2, 5, 128]]
     = (IOError, \<lparr>pc = newPeerConn, first = False,
                  view = \<lparr>bf_bytes = [128], bf_len = 1\<rparr>, sent = [Have 0]\<rparr>)"
    by (simp add: loop_eval scenario1_def init_loop_def newBitField_def Bytes_def Len_def Test_def)
  with r C8_keep_alive_not_first_message
         [where cs = "[[0, 0, 0, 0], [0, 0, 0, 2, 5, 128]]"
            and ?cs1.0 = "[[], [0, 0, 0, 2, 5, 128]]" and t = "scenario1 []"
            and s = "init_loop (scenario1 []) newPeerConn"]
  show ?thesis by simp
qed

subsection \<open>Messages with an id\<close>

lemma step_message:
  "read_u32 cs = Some (len, cs1) \<Longrightarrow> len \<noteq> 0 \<Longrightarrow> read_u8 cs1 = Some (m, cs2) \<Longrightarrow>
   step t s cs = (case handle t s m (len - 1) cs2 of
                    Stop e s1 \<Rightarrow> Stop e s1
                  | Continue s1 cs3 \<Rightarrow> Continue (s1\<lparr>first := False\<rparr>) cs3)"
  by (simp add: step_def)

text \<open>REQUEST, CANCEL and PORT read nothing: the next turn starts at the body.\<close>

lemma handle_Request: "handle t s msgRequest len cs = Continue s cs"
  by (simp add: handle_def msg_defs)

lemma handle_Cancel: "handle t s msgCancel len cs = Continue s cs"
  by (simp add: handle_def msg_defs)

lemma handle_Port: "handle t s msgPort len cs = Continue s cs"
  by (simp add: handle_def msg_defs)

lemma step_ignored:
  assumes "read_u32 cs = Some (len, cs1)" "len \<noteq> 0" "read_u8 cs1 = Some (m, cs2)"
    and "m = msgRequest \<or> m = msgCancel \<or> m = msgPort"
  shows "step t s cs = Continue (s\<lparr>first := False\<rparr>) cs2"
  using assms(4) step_message [OF assms(1-3), of t s]
  by (auto simp: handle_Request handle_Cancel handle_Port)

text \<open>The default case of the switch does skip the body.\<close>

lemma handle_unknown:
  assumes "9 < m"
  shows "handle t s m len cs = Continue s (discard (unat len) cs)"
proof -
  have "m \<noteq> msgChoke" "m \<noteq> msgUnchoke" "m \<noteq> msgInterested" "m \<noteq> msgNotInterested"
    "m \<noteq> msgHave" "m \<noteq> msgBitfield" "m \<noteq> msgRequest" "m \<noteq> msgPiece" "m \<noteq> msgCancel"
    "m \<noteq> msgPort"
    using assms by (auto simp: msg_defs)
  then show ?thesis
    by (simp add: handle_def)
qed

text \<open>
  C2. On a connection just past the handshake the remote sends
  REQUEST(index 1, begin 16777216, length 16384) and then HAVE(0). The loop reads the
  length 13 and the id 6 and nothing more; the next turn takes the bytes of the index as
  a length prefix of 1 and the first byte of begin as the id UNCHOKE, so the peer is
  unchoked and the unchoke channel replaced; the turns after that see a keep-alive, two
  CHOKE messages and a short read. HAVE(0) is never handled as a message.
\<close>

theorem C2_request_body_not_skipped:
  "step t s [[0, 0, 0, 13, 6, 0, 0, 0, 1, 1, 0, 0, 0, 0, 0, 64, 0, 0, 0, 0, 5, 4, 0, 0, 0, 0]]
     = Continue (s\<lparr>first := False\<rparr>)
         [[0, 0, 0, 1, 1, 0, 0, 0, 0, 0, 64, 0, 0, 0, 0, 5, 4, 0, 0, 0, 0]]
   \<and> step t (s\<lparr>first := False\<rparr>)
         [[0, 0, 0, 1, 1, 0, 0, 0, 0, 0, 64, 0, 0, 0, 0, 5, 4, 0, 0, 0, 0]]
     = Continue (s\<lparr>pc := (pc s)\<lparr>peerChoking := False, unchokeC := Suc (unchokeC (pc s))\<rparr>,
                   first := False\<rparr>)
         [[0, 0, 0, 0, 0, 64, 0, 0, 0, 0, 5, 4, 0, 0, 0, 0]]
   \<and> run_loop t s
         [[0, 0, 0, 13, 6, 0, 0, 0, 1, 1, 0, 0, 0, 0, 0, 64, 0, 0, 0, 0, 5, 4, 0, 0, 0, 0]]
     = (IOError, s\<lparr>pc := (pc s)\<lparr>peerChoking := True, unchokeC := Suc (unchokeC (pc s))\<rparr>,
                   first := False\<rparr>)"
  by (simp add: loop_eval)

subsection \<open>PIECE\<close>

lemma unat_index_less:
  fixes i :: u32
  shows "i < of_nat n \<Longrightarrow> unat i < n"
proof -
  assume "i < of_nat n"
  then have "unat i < unat (of_nat n :: u32)"
    by (simp add: word_less_nat_alt)
  also have "unat (of_nat n :: u32) \<le> n"
    by (simp add: unat_of_nat)
  finally show ?thesis .
qed

text \<open>What a PIECE message that does not end the loop has passed, and what it sends.\<close>

lemma handle_Piece_Continue:
  assumes "handle t s msgPiece len cs = Continue s' cs'"
  shows "\<exists>index begin cs1 cs2 data.
           read_u32 cs = Some (index, cs1) \<and> index < of_nat (length (pieces t))
         \<and> read_u32 cs1 = Some (begin, cs2) \<and> begin mod blockSize = 0
         \<and> begin div blockSize < of_nat (length (p_blocks (pieces t ! unat index)))
         \<and> len - 8 = b_length (p_blocks (pieces t ! unat index) ! unat (begin div blockSize))
         \<and> limit_Read (unat (len - 8)) cs2 = Some (data, cs')
         \<and> length data = unat (len - 8)
         \<and> s' = s\<lparr>sent := sent s @ [Block (unat index) (unat (begin div blockSize)) data]\<rparr>"
proof -
  have len: "limit_Read n ds = Some (data, ds') \<Longrightarrow> length data = n" for n ds data ds'
    by (induction n ds rule: conn_Read.induct)
      (auto simp: limit_Read_def split: if_splits option.splits)
  from assms show ?thesis
    by (simp add: handle_def msg_defs Let_def split: option.splits if_splits prod.splits)
      (use len in force)+
qed

text \<open>When one read returns the whole body, the data sent is the body.\<close>

lemma limit_Read_whole:
  "n \<noteq> 0 \<Longrightarrow> n \<le> length c \<Longrightarrow> limit_Read n (c # cs) = Some (take n c, drop n c # cs)"
  by (auto simp: limit_Read_def)

lemma short_frame_uint:
  fixes len :: u32
  assumes "len \<noteq> 0" "len < 9"
  shows "uint (len - 1 - 8) = uint len + 4294967287"
proof -
  have "len - 1 - 8 = len - 9" by simp
  moreover have "uint len < 9"
    using assms(2) by (simp add: word_less_def)
  ultimately show ?thesis
    by (simp add: uint_sub_if')
qed

lemma short_frame_wraps:
  fixes len :: u32
  assumes "len \<noteq> 0" "len < 9"
  shows "2 ^ 32 - 8 \<le> len - 1 - 8"
proof -
  have "uint len \<noteq> 0"
    using assms(1) by (simp add: uint_0_iff)
  then have "0 < uint len"
    using uint_ge_0 [of len] by linarith
  then show ?thesis
    using short_frame_uint [OF assms] by (simp add: word_le_def)
qed

text \<open>
  C9. A PIECE message whose frame length is below 9 and whose index and begin pass the
  checks: \<^verbatim>\<open>length -= 8\<close> wraps to at least \<open>2^32 - 8\<close>; no block of at most 16384
  bytes has that length, so the turn ends the loop with "unexpected block size", before
  \<^verbatim>\<open>make([]byte, length)\<close>, and the state is the one before the message.
\<close>

theorem C9_short_piece_frame_wraps:
  assumes "read_u32 cs = Some (len, cs1)" "len \<noteq> 0" "len < 9"
    and "read_u8 cs1 = Some (msgPiece, cs2)"
    and "read_u32 cs2 = Some (index, cs3)" "index < of_nat (length (pieces t))"
    and "read_u32 cs3 = Some (bgn, cs4)" "bgn mod blockSize = 0"
    and "bgn div blockSize < of_nat (length (p_blocks (pieces t ! unat index)))"
    and "\<forall>b \<in> set (p_blocks (pieces t ! unat index)). b_length b \<le> 16384"
  shows "2 ^ 32 - 8 \<le> len - 1 - 8
       \<and> (\<forall>b \<in> set (p_blocks (pieces t ! unat index)). len - 1 - 8 \<noteq> b_length b)
       \<and> step t s cs = Stop (Err ''unexpected block size'') s
       \<and> run_loop t s cs = (Err ''unexpected block size'', s)"
proof -
  let ?bs = "p_blocks (pieces t ! unat index)"
  have wrap: "2 ^ 32 - 8 \<le> len - 1 - 8"
    by (rule short_frame_wraps [OF assms(2,3)])
  have ne: "len - 1 - 8 \<noteq> b_length b" if "b \<in> set ?bs" for b
  proof
    assume "len - 1 - 8 = b_length b"
    with wrap have "(2 ^ 32 - 8 :: u32) \<le> b_length b" by simp
    moreover from that assms(10) have "b_length b \<le> 16384" by blast
    ultimately have "(2 ^ 32 - 8 :: u32) \<le> 16384" by (rule order_trans)
    then show False by simp
  qed
  have "?bs ! unat (bgn div blockSize) \<in> set ?bs"
    using unat_index_less [OF assms(9)] by simp
  then have "len - 1 - 8 \<noteq> b_length (?bs ! unat (bgn div blockSize))"
    by (rule ne)
  then have h: "handle t s msgPiece (len - 1) cs2 = Stop (Err ''unexpected block size'') s"
    using assms(5-9) by (simp add: handle_def msg_defs Let_def not_le)
  have st: "step t s cs = Stop (Err ''unexpected block size'') s"
    using step_message [OF assms(1,2,4), of t s] h by simp
  from wrap ne st run_loop_Stop [OF st] show ?thesis by blast
qed

theorem C9_short_piece_frame_wraps_witness:
  "(2 ^ 32 - 8 :: u32) \<le> 8 - 1 - 8
   \<and> run_loop (scenario1 []) (init_loop (scenario1 []) newPeerConn)
        [[0, 0, 0, 8, 7, 0, 0, 0, 0, 0, 0, 0, 0]]
     = (Err ''unexpected block size'', init_loop (scenario1 []) newPeerConn)"
  using C9_short_piece_frame_wraps
    [where cs = "[[0, 0, 0, 8, 7, 0, 0, 0, 0, 0, 0, 0, 0]]" and len = 8
       and ?cs1.0 = "[[7, 0, 0, 0, 0, 0, 0, 0, 0]]" and ?cs2.0 = "[[0, 0, 0, 0, 0, 0, 0, 0]]"
       and index = 0 and ?cs3.0 = "[[0, 0, 0, 0]]" and t = "scenario1 []"
       and bgn = 0 and ?cs4.0 = "[[]]" and s = "init_loop (scenario1 []) newPeerConn"]
  by (simp add: read_u32_def read_u8_def be32_def msg_defs scenario1_def blockSize_def)

lemma step_Piece_Continue:
  assumes "read_u32 cs = Some (len, cs1)" "len \<noteq> 0" "read_u8 cs1 = Some (msgPiece, cs2)"
    and "step t s cs = Continue s' cs'"
  shows "\<exists>index bgn cs3 cs4 data.
           read_u32 cs2 = Some (index, cs3) \<and> index < of_nat (length (pieces t))
         \<and> read_u32 cs3 = Some (bgn, cs4) \<and> bgn mod blockSize = 0
         \<and> bgn div blockSize < of_nat (length (p_blocks (pieces t ! unat index)))
         \<and> len - 1 - 8 = b_length (p_blocks (pieces t ! unat index) ! unat (bgn div blockSize))
         \<and> length data = unat (len - 1 - 8)
         \<and> s' = s\<lparr>sent := sent s @ [Block (unat index) (unat (bgn div blockSize)) data],
                   first := False\<rparr>"
proof -
  from assms(4) step_message [OF assms(1-3), of t s]
  obtain s1 where h: "handle t s msgPiece (len - 1) cs2 = Continue s1 cs'"
    and s': "s' = s1\<lparr>first := False\<rparr>"
    by (auto split: step_result.splits)
  from handle_Piece_Continue [OF h]
  obtain index bgn cs3 cs4 data where
    "read_u32 cs2 = Some (index, cs3)" "index < of_nat (length (pieces t))"
    "read_u32 cs3 = Some (bgn, cs4)" "bgn mod blockSize = 0"
    "bgn div blockSize < of_nat (length (p_blocks (pieces t ! unat index)))"
    "len - 1 - 8 = b_length (p_blocks (pieces t ! unat index) ! unat (bgn div blockSize))"
    "length data = unat (len - 1 - 8)"
    "s1 = s\<lparr>sent := sent s @ [Block (unat index) (unat (bgn div blockSize)) data]\<rparr>"
    by (elim exE conjE) (rule that; assumption)
  with s' show ?thesis
    by (intro exI [of _ index] exI [of _ bgn] exI [of _ cs3] exI [of _ cs4] exI [of _ data])
      simp
qed

text \<open>When one read returns the whole body, the block sent is the body and the next turn
  starts after it.\<close>

lemma step_Piece_whole_body:
  assumes "read_u32 cs = Some (len, cs1)" "len \<noteq> 0" "read_u8 cs1 = Some (msgPiece, cs2)"
    and "read_u32 cs2 = Some (index, cs3)" "index < of_nat (length (pieces t))"
    and "read_u32 cs3 = Some (bgn, c # cs4)" "bgn mod blockSize = 0"
    and "bgn div blockSize < of_nat (length (p_blocks (pieces t ! unat index)))"
    and "len - 1 - 8 = b_length (p_blocks (pieces t ! unat index) ! unat (bgn div blockSize))"
    and "len - 1 - 8 \<noteq> 0" "unat (len - 1 - 8) \<le> length c"
  shows "step t s cs =
           Continue (s\<lparr>sent := sent s @ [Block (unat index) (unat (bgn div blockSize))
                                           (take (unat (len - 1 - 8)) c)],
                       first := False\<rparr>)
             (drop (unat (len - 1 - 8)) c # cs4)"
proof -
  have n: "unat (len - 1 - 8) \<noteq> 0"
    using assms(10) by (simp add: unat_eq_0)
  have "handle t s msgPiece (len - 1) cs2 =
          Continue (s\<lparr>sent := sent s @ [Block (unat index) (unat (bgn div blockSize))
                                           (take (unat (len - 1 - 8)) c)]\<rparr>)
            (drop (unat (len - 1 - 8)) c # cs4)"
    using assms(4-9) limit_Read_whole [OF n assms(11), of cs4]
    by (simp add: handle_def msg_defs Let_def not_le)
  then show ?thesis
    using step_message [OF assms(1-3), of t s] by simp
qed

text \<open>
  C3. Scenario 1, and PIECE(0, 0, 16384 bytes \<open>A\<close>) arriving in two segments, the first
  of 1448 bytes (13 of header, 1435 of body). All four checks pass. The one read of the
  body returns the 1435 bytes at hand, so the block sent on the piece's channel is those
  followed by 14949 zero bytes, and the next turn starts inside the body.
\<close>

theorem C3_piece_body_single_read:
  "step (scenario1 d) s
     [[0, 0, 64, 9, 7, 0, 0, 0, 0, 0, 0, 0, 0] @ replicate 1435 65, replicate 14949 65]
   = Continue (s\<lparr>first := False,
                 sent := sent s @ [Block 0 0 (replicate 1435 65 @ replicate 14949 0)]\<rparr>)
       [[], replicate 14949 65]"
  by (simp add: step_def read_u32_def read_u8_def be32_def handle_def msg_defs limit_Read_def
      blockSize_def scenario1_def)

text \<open>The same message in one segment is delivered whole.\<close>

lemma piece_body_whole_segment:
  "step (scenario1 d) s [[0, 0, 64, 9, 7, 0, 0, 0, 0, 0, 0, 0, 0] @ replicate 16384 65]
   = Continue (s\<lparr>first := False, sent := sent s @ [Block 0 0 (replicate 16384 65)]\<rparr>) [[]]"
  by (simp add: step_def read_u32_def read_u8_def be32_def handle_def msg_defs limit_Read_def
      blockSize_def scenario1_def)

subsection \<open>BITFIELD\<close>

lemma handle_Bitfield_not_first:
  "\<not> first s \<Longrightarrow>
   handle t s msgBitfield len cs = Stop (Err ''bitfield can only be sent after handshake'') s"
  by (simp add: handle_def msg_defs)

lemma handle_Bitfield_length:
  "first s \<Longrightarrow> uint len \<noteq> int (length (Bytes (view s))) \<Longrightarrow>
   handle t s msgBitfield len cs = Stop (Err ''invalid bitfield length'') s"
  by (simp add: handle_def msg_defs)

lemma length_Bytes_newBitField: "length (Bytes (newBitField n)) = (unat n + 7) div 8"
  by (simp add: Bytes_def newBitField_def)

lemma step_first_False:
  "step t s cs = Continue s' cs' \<Longrightarrow> \<not> first s \<Longrightarrow> \<not> first s'"
  by (auto simp: step_def split: option.splits if_splits step_result.splits)

lemma step_message_clears_first:
  "read_u32 cs = Some (len, cs1) \<Longrightarrow> len \<noteq> 0 \<Longrightarrow> step t s cs = Continue s' cs' \<Longrightarrow> \<not> first s'"
  by (auto simp: step_def split: option.splits step_result.splits)

lemma reaches_first_False: "reaches t s cs s' cs' \<Longrightarrow> \<not> first s \<Longrightarrow> \<not> first s'"
  by (induction rule: reaches.induct) (auto dest: step_first_False)

text \<open>
  A BITFIELD after any message with an id ends the loop, in the state it was received in.
\<close>

lemma bitfield_after_message:
  assumes "read_u32 cs0 = Some (len0, cs0')" "len0 \<noteq> 0" "step t s0 cs0 = Continue s1 cs1"
    and "reaches t s1 cs1 s cs"
    and "read_u32 cs = Some (len, cs2)" "len \<noteq> 0" "read_u8 cs2 = Some (msgBitfield, cs3)"
  shows "step t s cs = Stop (Err ''bitfield can only be sent after handshake'') s"
    and "run_loop t s cs = (Err ''bitfield can only be sent after handshake'', s)"
proof -
  have "\<not> first s"
    using reaches_first_False [OF assms(4) step_message_clears_first [OF assms(1-3)]] .
  then show "step t s cs = Stop (Err ''bitfield can only be sent after handshake'') s"
    using step_message [OF assms(5-7), of t s] by (simp add: handle_Bitfield_not_first)
  then show "run_loop t s cs = (Err ''bitfield can only be sent after handshake'', s)"
    by (rule run_loop_Stop)
qed

text \<open>As the first message, a BITFIELD of another length than the view's ends the loop.\<close>

lemma bitfield_first_wrong_length:
  assumes "read_u32 cs = Some (len, cs2)" "len \<noteq> 0" "read_u8 cs2 = Some (msgBitfield, cs3)"
    and "uint (len - 1) \<noteq> int ((unat (Len (t_bitField t)) + 7) div 8)"
  shows "step t (init_loop t p) cs = Stop (Err ''invalid bitfield length'') (init_loop t p)"
  using step_message [OF assms(1-3), of t "init_loop t p"] assms(4)
    handle_Bitfield_length [of "init_loop t p" "len - 1" t cs3]
  by (simp add: init_loop_def length_Bytes_newBitField)

lemma send_haves_no_panic:
  "\<forall>i \<in> set is. i < length (pieces t) \<Longrightarrow>
   send_haves t bf is s =
     (None, s\<lparr>sent := sent s @ map Have (filter (\<lambda>i. Test bf (of_nat i)) is)\<rparr>)"
  by (induction "is" arbitrary: s) simp_all

text \<open>
  When one read returns the whole body of a first BITFIELD of the right length, the view
  is the body and a \<open>Have\<close> is sent for every set bit below \<open>Len\<close>.
\<close>

lemma step_Bitfield_whole_body:
  assumes "read_u32 cs = Some (len, cs1)" "len \<noteq> 0" "read_u8 cs1 = Some (msgBitfield, c # cs2)"
    and "first s" "uint (len - 1) = int (length (Bytes (view s)))"
    and "length (Bytes (view s)) \<le> length c"
    and "unat (Len (view s)) \<le> length (pieces t)"
  shows "step t s cs =
           Continue (s\<lparr>view := (view s)\<lparr>bf_bytes := take (length (Bytes (view s))) c\<rparr>,
                       sent := sent s @ map Have
                         (filter (\<lambda>i. Test ((view s)\<lparr>bf_bytes := take (length (Bytes (view s))) c\<rparr>)
                                        (of_nat i))
                            [0..<unat (Len (view s))]),
                       first := False\<rparr>)
             (drop (length (Bytes (view s))) c # cs2)"
proof -
  let ?n = "length (Bytes (view s))"
  let ?bf = "(view s)\<lparr>bf_bytes := take ?n c\<rparr>"
  have rd: "conn_Read ?n (c # cs2) = Some (take ?n c, drop ?n c # cs2)"
    using assms(6) by auto
  have bf: "(view s)\<lparr>bf_bytes := take ?n c @ drop (length (take ?n c)) (bf_bytes (view s))\<rparr> = ?bf"
    using assms(6) by (simp add: Bytes_def min_def)
  have hv: "send_haves t ?bf [0..<unat (Len ?bf)] (s\<lparr>view := ?bf\<rparr>) =
              (None, s\<lparr>view := ?bf, sent := sent s @ map Have
                 (filter (\<lambda>i. Test ?bf (of_nat i)) [0..<unat (Len (view s))])\<rparr>)"
    using assms(7) send_haves_no_panic [of "[0..<unat (Len ?bf)]" t ?bf "s\<lparr>view := ?bf\<rparr>"]
    by (simp add: Len_def)
  have "handle t s msgBitfield (len - 1) (c # cs2) =
          Continue (s\<lparr>view := ?bf, sent := sent s @ map Have
                 (filter (\<lambda>i. Test ?bf (of_nat i)) [0..<unat (Len (view s))])\<rparr>)
            (drop ?n c # cs2)"
    unfolding handle_def using assms(4,5) rd bf hv
    by (simp add: msg_defs Let_def del: conn_Read.simps)
  then show ?thesis
    using step_message [OF assms(1-3), of t s] by simp
qed

text \<open>
  C4. Nine pieces, so a bitfield of two bytes, and the first message is
  BITFIELD \<^verbatim>\<open>[0xFF, 0x80]\<close> (all nine pieces) whose last byte arrives in a second segment.
  The one read of the body returns its first byte: the view becomes \<^verbatim>\<open>[0xFF, 0x00]\<close>,
  eight \<open>Have\<close> are sent and none for piece 8, and the next turn starts at the last byte
  of the body.
\<close>

theorem C4_bitfield_body_single_read:
  "step nine_pieces (init_loop nine_pieces p) [[0, 0, 0, 3, 5, 255], [128]]
   = Continue \<lparr>pc = p, first = False, view = \<lparr>bf_bytes = [255, 0], bf_len = 9\<rparr>,
               sent = map Have [0..<8]\<rparr> [[], [128]]"
  by (simp add: step_def read_u32_def read_u8_def be32_def handle_def msg_defs
      nine_pieces_def init_loop_def newBitField_def Bytes_def Len_def Test_def
      upt_rec [of _ "numeral _"] upt_rec [of 0])

text \<open>The same message in one segment.\<close>

lemma bitfield_body_whole_segment:
  "step nine_pieces (init_loop nine_pieces p) [[0, 0, 0, 3, 5, 255, 128]]
   = Continue \<lparr>pc = p, first = False, view = \<lparr>bf_bytes = [255, 128], bf_len = 9\<rparr>,
               sent = map Have [0..<9]\<rparr> [[]]"
  by (simp add: step_def read_u32_def read_u8_def be32_def handle_def msg_defs
      nine_pieces_def init_loop_def newBitField_def Bytes_def Len_def Test_def
      upt_rec [of _ "numeral _"] upt_rec [of 0])

section \<open>Properties of downloadPiece\<close>

lemma request_blocks_piece:
  "request_blocks bs env d = (r, d') \<Longrightarrow>
   p_sha1 (dl_piece d') = p_sha1 (dl_piece d) \<and> p_downloaded (dl_piece d') = p_downloaded (dl_piece d)"
proof (induction bs arbitrary: d r d')
  case Nil
  then show ?case by simp
next
  case (Cons ib bs)
  obtain i b where ib: "ib = (i, b)" by (cases ib)
  from Cons.prems show ?case
    unfolding ib
    by (auto simp: Let_def sendRequest_def split: if_splits block_wait.splits dest!: Cons.IH)
qed

text \<open>
  C1. \<^verbatim>\<open>downloadPiece\<close> returns \<^verbatim>\<open>nil\<close> only when the block loop has run to its
  end and the hash of the piece buffer is the piece's digest, and then \<open>downloaded\<close> is
  true; it changes \<open>downloaded\<close> in no other case; and when the block loop has run to its
  end and the hash differs, the error is "received corrupt piece" and \<open>downloaded\<close> is
  as it was.
\<close>

theorem C1_downloaded_only_on_hash_match:
  assumes "downloadPiece sha1 p P env = (r, p', P')"
  shows "(r = None \<longrightarrow>
            (\<exists>buf. assembled p P env = Some buf \<and> sha1 buf = p_sha1 P) \<and> p_downloaded P')
       \<and> (r \<noteq> None \<longrightarrow> p_downloaded P' = p_downloaded P)
       \<and> (\<forall>buf. assembled p P env = Some buf \<and> sha1 buf \<noteq> p_sha1 P \<longrightarrow>
            r = Some (Err ''received corrupt piece'') \<and> p_downloaded P' = p_downloaded P)"
proof -
  obtain c e p1 where bi: "beInterested p (interested_ok env) = (c, e, p1)"
    by (cases "beInterested p (interested_ok env)") auto
  let ?d0 = "\<lparr>dl_conn = p1, dl_piece = P, pieceData = replicate (unat (p_length P)) 0\<rparr>"
  obtain rb d where rb: "request_blocks (zip [0..<length (p_blocks P)] (p_blocks P))
                           (blocks_env env) ?d0 = (rb, d)"
    by (cases "request_blocks (zip [0..<length (p_blocks P)] (p_blocks P)) (blocks_env env) ?d0")
      auto
  from request_blocks_piece [OF rb]
  have keep: "p_sha1 (dl_piece d) = p_sha1 P" "p_downloaded (dl_piece d) = p_downloaded P"
    by simp_all
  show ?thesis
    using assms bi rb keep
    by (cases e; cases rb)
      (auto simp: downloadPiece_def assembled_def split: if_splits)
qed

lemmas download_eval = downloadPiece_def assembled_def beInterested_def sendMessage_def
  sendRequest_def newPeerConn_def tiny_piece_def toy_hash_def copy_at_def enc32_def msg_defs
  blockSize_def Set_bit_def newBitField_def Let_def

theorem C1_downloaded_only_on_hash_match_witness:
  "downloadPiece toy_hash newPeerConn tiny_piece good_env =
     (None,
      newPeerConn\<lparr>onceInterested := True,
                   written := [[0, 0, 0, 1, 2],
                               [0, 0, 0, 13, 6, 0, 0, 0, 0, 0, 0, 0, 0, 0, 0, 0, 2]]\<rparr>,
      tiny_piece\<lparr>p_bitField := \<lparr>bf_bytes = [128], bf_len = 1\<rparr>, p_downloaded := True\<rparr>)
   \<and> assembled newPeerConn tiny_piece good_env = Some [7, 9]
   \<and> toy_hash [7, 9] = p_sha1 tiny_piece
   \<and> assembled newPeerConn tiny_piece corrupt_env = Some [7, 8]
   \<and> toy_hash [7, 8] \<noteq> p_sha1 tiny_piece
   \<and> downloadPiece toy_hash newPeerConn tiny_piece corrupt_env =
     (Some (Err ''received corrupt piece''),
      newPeerConn\<lparr>onceInterested := True,
                   written := [[0, 0, 0, 1, 2],
                               [0, 0, 0, 13, 6, 0, 0, 0, 0, 0, 0, 0, 0, 0, 0, 0, 2]]\<rparr>,
      tiny_piece\<lparr>p_bitField := \<lparr>bf_bytes = [128], bf_len = 1\<rparr>\<rparr>)"
proof -
  have ok: "downloadPiece toy_hash newPeerConn tiny_piece good_env =
     (None,
      newPeerConn\<lparr>onceInterested := True,
                   written := [[0, 0, 0, 1, 2],
                               [0, 0, 0, 13, 6, 0, 0, 0, 0, 0, 0, 0, 0, 0, 0, 0, 2]]\<rparr>,
      tiny_piece\<lparr>p_bitField := \<lparr>bf_bytes = [128], bf_len = 1\<rparr>, p_downloaded := True\<rparr>)"
    by (simp add: download_eval good_env_def block_arrives_def)
  have bad: "downloadPiece toy_hash newPeerConn tiny_piece corrupt_env =
     (Some (Err ''received corrupt piece''),
      newPeerConn\<lparr>onceInterested := True,
                   written := [[0, 0, 0, 1, 2],
                               [0, 0, 0, 13, 6, 0, 0, 0, 0, 0, 0, 0, 0, 0, 0, 0, 2]]\<rparr>,
      tiny_piece\<lparr>p_bitField := \<lparr>bf_bytes = [128], bf_len = 1\<rparr>\<rparr>)"
    by (simp add: download_eval corrupt_env_def corrupt_block_arrives_def)
  have a1: "assembled newPeerConn tiny_piece good_env = Some [7, 9]"
    by (simp add: download_eval good_env_def block_arrives_def)
  have a2: "assembled newPeerConn tiny_piece corrupt_env = Some [7, 8]"
    by (simp add: download_eval corrupt_env_def corrupt_block_arrives_def)
  have h: "toy_hash [7, 9] = p_sha1 tiny_piece" "toy_hash [7, 8] \<noteq> p_sha1 tiny_piece"
    by (simp_all add: toy_hash_def tiny_piece_def)
  from C1_downloaded_only_on_hash_match [OF ok] C1_downloaded_only_on_hash_match [OF bad]
    ok bad a1 a2 h
  show ?thesis by simp
qed

text \<open>
  C5. When \<^verbatim>\<open>beInterested\<close> has returned without error and the \<^verbatim>\<open>select\<close> takes the
  branch of \<^verbatim>\<open>time.After(time.Minute)\<close>, \<^verbatim>\<open>downloadPiece\<close> closes the connection and
  returns the error whose message is "Peer did not unchoke"; the piece is as it was.
\<close>

theorem C5_unchoke_timeout:
  assumes "beInterested p (interested_ok env) = (c, None, p1)" and "\<not> unchoked env"
  shows "downloadPiece sha1 p P env = (Some (Err ''Peer did not unchoke''), p1\<lparr>closed := True\<rparr>, P)
       \<and> closed (fst (snd (downloadPiece sha1 p P env)))
       \<and> map_option message (fst (downloadPiece sha1 p P env)) = Some ''Peer did not unchoke''"
  using assms by (simp add: downloadPiece_def)

theorem C5_unchoke_timeout_witness:
  "beInterested newPeerConn (interested_ok no_unchoke_env)
     = (0, None, newPeerConn\<lparr>onceInterested := True, written := [[0, 0, 0, 1, 2]]\<rparr>)
   \<and> \<not> unchoked no_unchoke_env
   \<and> downloadPiece toy_hash newPeerConn tiny_piece no_unchoke_env
     = (Some (Err ''Peer did not unchoke''),
        newPeerConn\<lparr>onceInterested := True, written := [[0, 0, 0, 1, 2]], closed := True\<rparr>,
        tiny_piece)"
proof -
  have bi: "beInterested newPeerConn (interested_ok no_unchoke_env)
     = (0, None, newPeerConn\<lparr>onceInterested := True, written := [[0, 0, 0, 1, 2]]\<rparr>)"
    by (simp add: beInterested_def sendMessage_def newPeerConn_def no_unchoke_env_def
        enc32_def msg_defs)
  have un: "\<not> unchoked no_unchoke_env"
    by (simp add: no_unchoke_env_def)
  from C5_unchoke_timeout [OF bi un, of toy_hash tiny_piece] bi un show ?thesis by simp
qed

text \<open>
  The message of the error is not the lower-case "peer did not unchoke".
\<close>

theorem C5_message_counterexample:
  "map_option message (fst (downloadPiece toy_hash newPeerConn tiny_piece no_unchoke_env))
     = Some ''Peer did not unchoke''
   \<and> map_option message (fst (downloadPiece toy_hash newPeerConn tiny_piece no_unchoke_env))
     \<noteq> Some ''peer did not unchoke''"
  by (simp add: downloadPiece_def beInterested_def sendMessage_def newPeerConn_def
      no_unchoke_env_def)

section \<open>INTERESTED is sent at most once\<close>

lemma once_inv_newPeerConn: "once_inv newPeerConn"
  by (simp add: once_inv_def interested_sent_def newPeerConn_def)

lemma once_inv_cong:
  "written p' = written p \<Longrightarrow> onceInterested p' = onceInterested p \<Longrightarrow> once_inv p' = once_inv p"
  by (simp add: once_inv_def interested_sent_def)

lemma sendBitField_once_inv: "once_inv p \<Longrightarrow> once_inv (snd (sendBitField p b ok))"
  by (simp add: once_inv_def interested_sent_def sendBitField_def enc32_def msg_defs)

lemma sendRequest_conn:
  "interested_sent (snd (sendRequest p i b l ok)) = interested_sent p
   \<and> onceInterested (snd (sendRequest p i b l ok)) = onceInterested p"
  by (simp add: interested_sent_def sendRequest_def enc32_def)

lemma beInterested_once_inv: "once_inv p \<Longrightarrow> once_inv (snd (snd (beInterested p ok)))"
  by (auto simp: once_inv_def interested_sent_def beInterested_def sendMessage_def)

lemma request_blocks_conn:
  "request_blocks bs env d = (r, d') \<Longrightarrow>
   interested_sent (dl_conn d') = interested_sent (dl_conn d)
   \<and> onceInterested (dl_conn d') = onceInterested (dl_conn d)"
proof (induction bs arbitrary: d r d')
  case Nil
  then show ?case by simp
next
  case (Cons ib bs)
  obtain i b where ib: "ib = (i, b)" by (cases ib)
  have send: "interested_sent (snd (sendRequest (dl_conn d) x y z ok)) = interested_sent (dl_conn d)
     \<and> onceInterested (snd (sendRequest (dl_conn d) x y z ok)) = onceInterested (dl_conn d)"
    for x y z ok
    by (rule sendRequest_conn)
  from Cons.prems show ?case
    unfolding ib
    by (auto simp: Let_def interested_sent_def sendRequest_def enc32_def
        split: if_splits block_wait.splits dest!: Cons.IH)
qed

lemma downloadPiece_once_inv:
  assumes "once_inv p"
  shows "once_inv (fst (snd (downloadPiece sha1 p P env)))"
proof -
  obtain c e p1 where bi: "beInterested p (interested_ok env) = (c, e, p1)"
    by (cases "beInterested p (interested_ok env)") auto
  have p1: "once_inv p1"
    using beInterested_once_inv [OF assms, of "interested_ok env"] bi by simp
  let ?d0 = "\<lparr>dl_conn = p1, dl_piece = P, pieceData = replicate (unat (p_length P)) 0\<rparr>"
  obtain rb d where rb: "request_blocks (zip [0..<length (p_blocks P)] (p_blocks P))
                           (blocks_env env) ?d0 = (rb, d)"
    by (cases "request_blocks (zip [0..<length (p_blocks P)] (p_blocks P)) (blocks_env env) ?d0")
      auto
  from request_blocks_conn [OF rb] p1 have d: "once_inv (dl_conn d)"
    by (simp add: once_inv_def)
  from p1 have cl: "once_inv (p1\<lparr>closed := True\<rparr>)"
    by (simp add: once_inv_def interested_sent_def)
  show ?thesis
    using bi rb p1 d cl
    by (cases e; cases rb) (auto simp: downloadPiece_def)
qed

lemma send_haves_pc: "pc (snd (send_haves t bf is s)) = pc s"
  by (induction "is" arbitrary: s) auto

lemma byte_cases:
  fixes m :: byte
  shows "m = msgChoke \<or> m = msgUnchoke \<or> m = msgInterested \<or> m = msgNotInterested
       \<or> m = msgHave \<or> m = msgBitfield \<or> m = msgRequest \<or> m = msgPiece
       \<or> m = msgCancel \<or> m = msgPort \<or> 9 < m"
proof (cases "9 < m")
  case True
  then show ?thesis by simp
next
  case False
  then have "unat m \<le> 9"
    by (simp add: word_less_nat_alt)
  then have "unat m = 0 \<or> unat m = 1 \<or> unat m = 2 \<or> unat m = 3 \<or> unat m = 4
           \<or> unat m = 5 \<or> unat m = 6 \<or> unat m = 7 \<or> unat m = 8 \<or> unat m = 9"
    by arith
  then show ?thesis
    by (auto simp: msg_defs word_unat_eq_iff)
qed

lemma handle_flags_keeps_conn:
  "keeps_conn s (handle t s msgChoke len cs)"
  "keeps_conn s (handle t s msgUnchoke len cs)"
  "keeps_conn s (handle t s msgInterested len cs)"
  "keeps_conn s (handle t s msgNotInterested len cs)"
  by (simp_all add: keeps_conn_def handle_def msg_defs)

lemma handle_Have_keeps_conn: "keeps_conn s (handle t s msgHave len cs)"
  by (simp add: keeps_conn_def handle_def msg_defs split: option.splits)

lemma handle_Bitfield_keeps_conn: "keeps_conn s (handle t s msgBitfield len cs)"
proof -
  have haves: "send_haves t bf is s0 = (r, s1) \<Longrightarrow> pc s1 = pc s0" for bf "is" s0 r s1
    using send_haves_pc [of t bf "is" s0] by simp
  show ?thesis
    by (auto simp: keeps_conn_def handle_def msg_defs Let_def
        split: option.splits prod.splits dest!: haves)
qed

lemma handle_Piece_keeps_conn: "keeps_conn s (handle t s msgPiece len cs)"
  by (simp add: keeps_conn_def handle_def msg_defs Let_def split: option.splits)

lemma handle_keeps_conn: "keeps_conn s (handle t s m len cs)"
  using byte_cases [of m] handle_flags_keeps_conn [of s t len cs]
    handle_Have_keeps_conn [of s t len cs] handle_Bitfield_keeps_conn [of s t len cs]
    handle_Piece_keeps_conn [of s t len cs]
  by (elim disjE)
    (simp_all add: handle_Request handle_Cancel handle_Port handle_unknown,
     simp_all add: keeps_conn_def)

lemma step_conn:
  "written (pc (state_of (step t s cs))) = written (pc s)
   \<and> onceInterested (pc (state_of (step t s cs))) = onceInterested (pc s)"
proof -
  have handle_conn: "written (pc (state_of (handle t s m len ds))) = written (pc s)
     \<and> onceInterested (pc (state_of (handle t s m len ds))) = onceInterested (pc s)"
    for m len ds
    using handle_keeps_conn [of s t m len ds] by (simp add: keeps_conn_def)
  have "state_of (case r of Stop e s1 \<Rightarrow> Stop e s1
                  | Continue s1 cs3 \<Rightarrow> Continue (s1\<lparr>first := False\<rparr>) cs3)
        = (state_of r)\<lparr>first := (case r of Stop e s1 \<Rightarrow> first s1 | Continue s1 cs1 \<Rightarrow> False)\<rparr>"
    for r
    by (cases r) simp_all
  then show ?thesis
    using handle_conn
    by (auto simp: step_def split: option.splits)
qed

lemma act_once_inv: "once_inv (pc (fst sc)) \<Longrightarrow> once_inv (pc (fst (act t sc a)))"
proof (cases sc)
  case (Pair s cs)
  assume inv: "once_inv (pc (fst sc))"
  show ?thesis
  proof (cases a)
    case LoopTurn
    have "once_inv (pc (state_of (step t s cs))) = once_inv (pc s)"
      using step_conn [of t s cs] by (intro once_inv_cong) simp_all
    with inv Pair LoopTurn show ?thesis
      by (cases "step t s cs") simp_all
  next
    case (CallBeInterested ok)
    with inv Pair beInterested_once_inv [of "pc s" ok] show ?thesis
      by (auto split: prod.splits)
  next
    case (CallDownloadPiece sha1 P env)
    with inv Pair downloadPiece_once_inv [of "pc s" sha1 P env] show ?thesis
      by (auto split: prod.splits)
  qed
qed

lemma foldl_act_once_inv:
  "once_inv (pc (fst sc)) \<Longrightarrow> once_inv (pc (fst (foldl (act t) sc acts)))"
  by (induction acts arbitrary: sc) (simp_all add: act_once_inv)

text \<open>
  C6. Whatever the turns of the message loop, the calls of \<^verbatim>\<open>beInterested\<close> and the
  calls of \<^verbatim>\<open>downloadPiece\<close> on a connection, in whatever order and with whatever
  outcome of the writes, at most one INTERESTED frame is written to it; and a call of
  \<^verbatim>\<open>beInterested\<close> while \<open>peerChoking\<close> is false returns the current unchoke channel and
  no error and leaves the connection as it is, nothing written.
\<close>

theorem C6_interested_at_most_once:
  "interested_sent (pc (fst (lifetime t ok cs acts))) \<le> 1
   \<and> (\<not> peerChoking p \<longrightarrow> beInterested p w = (unchokeC p, None, p))"
proof -
  have "once_inv (pc (fst (lifetime t ok cs acts)))"
    unfolding lifetime_def
    by (rule foldl_act_once_inv)
      (simp add: init_loop_def sendBitField_once_inv once_inv_newPeerConn)
  then show ?thesis
    by (simp add: once_inv_def beInterested_def)
qed

theorem C6_interested_at_most_once_witness:
  "\<not> peerChoking (newPeerConn\<lparr>peerChoking := False\<rparr>)
   \<and> beInterested (newPeerConn\<lparr>peerChoking := False\<rparr>) True
     = (0, None, newPeerConn\<lparr>peerChoking := False\<rparr>)
   \<and> interested_sent (pc (fst (lifetime (scenario1 []) True [[0, 0, 0, 1, 1]]
        [CallBeInterested True, LoopTurn, CallBeInterested True,
         CallDownloadPiece toy_hash tiny_piece good_env]))) \<le> 1"
  using C6_interested_at_most_once
    [where p = "newPeerConn\<lparr>peerChoking := False\<rparr>" and w = True and t = "scenario1 []"
       and ok = True and cs = "[[0, 0, 0, 1, 1]]"
       and acts = "[CallBeInterested True, LoopTurn, CallBeInterested True,
         CallDownloadPiece toy_hash tiny_piece good_env]"]
  by (simp add: newPeerConn_def)

section \<open>Downloaded and Left\<close>

lemma popcount_255: "popcount 255 = 8"
  by (simp add: popcount_def upt_rec [of _ "numeral _"] upt_rec [of 0])

lemma set_bits_all_ones: "set_bits \<lparr>bf_bytes = replicate n 255, bf_len = l\<rparr> = 8 * n"
  by (simp add: set_bits_def popcount_255 sum_list_replicate)

text \<open>The product is taken modulo \<open>2^32\<close>.\<close>

lemma uint_Downloaded:
  "uint (Downloaded t) = (int (set_bits (t_bitField t)) * uint (PieceLength t)) mod 2 ^ 32"
proof -
  have "uint (Downloaded t) = uint (Count (t_bitField t) * PieceLength t)"
    by (simp add: Downloaded_def uint_up_ucast is_up)
  also have "\<dots> = (int (set_bits (t_bitField t)) * uint (PieceLength t)) mod 2 ^ 32"
    by (simp add: Count_def uint_word_ariths unsigned_of_nat take_bit_eq_mod zmod_int
        mod_mult_left_eq)
  finally show ?thesis .
qed

lemma sint_Downloaded:
  "sint (Downloaded t) = (int (set_bits (t_bitField t)) * uint (PieceLength t)) mod 2 ^ 32"
proof -
  have "uint (Downloaded t) < 2 ^ 32"
    unfolding uint_Downloaded by simp
  then have hi: "uint (Downloaded t) < 2 ^ 63"
    by (rule less_trans) simp
  have lo: "- (2 ^ 63) \<le> uint (Downloaded t)"
    by (rule order_trans [of _ 0]) simp_all
  have "signed_take_bit 63 (uint (Downloaded t)) = uint (Downloaded t)"
    using lo hi by (rule signed_take_bit_int_eq_self)
  then have "sint (Downloaded t) = uint (Downloaded t)"
    by (simp add: sint_uint)
  then show ?thesis
    by (simp add: uint_Downloaded)
qed

text \<open>
  While the product stays below \<open>2^32\<close>, \<open>Downloaded\<close> is the number of set bits times
  the piece length; and when that exceeds the total length, \<open>Left\<close> is negative.
\<close>

lemma Downloaded_below_4GiB:
  assumes "int (set_bits (t_bitField t)) * uint (PieceLength t) < 2 ^ 32"
  shows "sint (Downloaded t) = int (set_bits (t_bitField t)) * uint (PieceLength t)"
  using assms by (simp add: sint_Downloaded)

lemma Left_negative_below_4GiB:
  assumes "int (set_bits (t_bitField t)) * uint (PieceLength t) < 2 ^ 32"
    and "0 \<le> sint (TotalLength t)"
    and "sint (TotalLength t) < int (set_bits (t_bitField t)) * uint (PieceLength t)"
  shows "sint (TotalLength t) < sint (Downloaded t)" and "sint (Left t) < 0"
proof -
  let ?d = "int (set_bits (t_bitField t)) * uint (PieceLength t)"
  have d: "sint (Downloaded t) = ?d"
    by (rule Downloaded_below_4GiB [OF assms(1)])
  with assms(3) show "sint (TotalLength t) < sint (Downloaded t)"
    by simp
  have "sint (Left t) = signed_take_bit 63 (sint (TotalLength t) - ?d)"
    by (simp add: Left_def sint_word_ariths d)
  also have "\<dots> = sint (TotalLength t) - ?d"
  proof (rule signed_take_bit_int_eq_self)
    have "- (2 ^ 63) \<le> - (2 ^ 32 :: int)" by simp
    also have "\<dots> \<le> sint (TotalLength t) - ?d"
      using assms(1,2) by linarith
    finally show "- (2 ^ 63) \<le> sint (TotalLength t) - ?d" .
    have "sint (TotalLength t) - ?d < 0"
      using assms(3) by simp
    also have "\<dots> < (2 ^ 63 :: int)" by simp
    finally show "sint (TotalLength t) - ?d < 2 ^ 63" .
  qed
  finally show "sint (Left t) < 0"
    using assms(3) by simp
qed

text \<open>
  C10. 1024 pieces of 4 MiB, the last one a byte short, all downloaded: the number of set
  bits times the piece length is \<open>2^32\<close>, and \<open>Downloaded\<close> is 0 and \<open>Left\<close> the total
  length, which is not negative.
\<close>

theorem C10_Downloaded_wraps_at_4GiB:
  "set_bits \<lparr>bf_bytes = replicate 128 255, bf_len = 1024\<rparr> * 4194304 = 4294967296
   \<and> Downloaded \<lparr>pieces = ps, t_bitField = \<lparr>bf_bytes = replicate 128 255, bf_len = 1024\<rparr>,
                   PieceLength = 4194304, TotalLength = 4294967295\<rparr> = 0
   \<and> sint (Left \<lparr>pieces = ps, t_bitField = \<lparr>bf_bytes = replicate 128 255, bf_len = 1024\<rparr>,
                    PieceLength = 4194304, TotalLength = 4294967295\<rparr>) = 4294967295"
  by (simp add: Downloaded_def Left_def Count_def set_bits_all_ones)

end
